theory Spec2Isabelle
  imports Main
begin

section \<open>The signalling relay of src/server/server.js\<close>

text \<open>
  The relay keeps two module-level JavaScript containers, \<^verbatim>\<open>clients\<close> (a Map from a
  WebSocket object to its session) and \<^verbatim>\<open>rooms\<close> (a Map from a room identifier to a Set
  of WebSocket objects). A JavaScript Map and a JavaScript Set iterate in insertion
  order, and the handlers depend on that order, so both are association lists resp.
  duplicate-free lists here, with the operations of the source written out.

  What the handlers do to the outside world is a list of effects, in the order in which
  the source performs them: a call \<^verbatim>\<open>client.send(...)\<close> on a WebSocket object, or a
  line written with \<^verbatim>\<open>console.log\<close> / \<^verbatim>\<open>console.error\<close>. A \<open>Send\<close> effect is the call
  of \<^verbatim>\<open>send\<close> the source makes; the transport library behind it is not part of the
  repository, and the call is taken to return normally.

  The fields \<^verbatim>\<open>username\<close>, \<^verbatim>\<open>roomId\<close> and \<^verbatim>\<open>targetId\<close> of a message are strings, as in
  the message schema; the \<^verbatim>\<open>signal\<close> payload is opaque and stands for its JSON text.
  The result of \<^verbatim>\<open>generateUserId()\<close> (a draw of \<^verbatim>\<open>Math.random\<close>) is an argument of the
  handler that consumes it.
\<close>

subsection \<open>Data\<close>

type_synonym conn = nat

type_synonym json = string

datatype readyState = CONNECTING | OPEN | CLOSING | CLOSED

record session =
  userId :: string
  username :: string
  roomId :: string

type_synonym user = "string \<times> string"

datatype message =
    RoomJoined string string "user list"
  | UserJoined string string
  | UserList "user list"
  | UserLeft string string
  | SignalTo string json

datatype log_line =
    NewClientConnected
  | UnknownMessageType
  | ErrorHandlingMessage
  | ClientDisconnected
  | WebSocketError
  | JoinedRoom string string
  | RoomRemoved string
  | LeftRoom string string

datatype effect = Send conn message | Log log_line

text \<open>
  What \<^verbatim>\<open>JSON.parse(message)\<close> followed by the read of \<^verbatim>\<open>data.type\<close> can yield:
  \<open>SyntaxError\<close> when the text is not JSON, \<open>Null\<close> when it is the JSON value
  \<^verbatim>\<open>null\<close> (reading \<^verbatim>\<open>data.type\<close> then raises a TypeError), one of the three known
  message types, or anything else (\<open>Other\<close>: an unknown or missing type).
\<close>

datatype data =
    SyntaxError
  | Null
  | Join string string
  | Signal string json
  | Leave
  | Other

datatype completion = Returned | Threw

record state =
  clients :: "(conn \<times> session) list"
  rooms :: "(string \<times> conn list) list"

definition initial :: state where
  "initial = \<lparr>clients = [], rooms = []\<rparr>"

subsection \<open>JavaScript Map and Set\<close>

definition Map_get :: "('k \<times> 'v) list \<Rightarrow> 'k \<Rightarrow> 'v option" where
  "Map_get m k = map_of m k"

definition Map_has :: "('k \<times> 'v) list \<Rightarrow> 'k \<Rightarrow> bool" where
  "Map_has m k = (map_of m k \<noteq> None)"

text \<open>\<^verbatim>\<open>Map.prototype.set\<close>: an existing key keeps its place, a new key goes last.\<close>

fun Map_set :: "('k \<times> 'v) list \<Rightarrow> 'k \<Rightarrow> 'v \<Rightarrow> ('k \<times> 'v) list" where
  "Map_set [] k v = [(k, v)]"
| "Map_set (p # m) k v = (if fst p = k then (k, v) # m else p # Map_set m k v)"

definition Map_delete :: "('k \<times> 'v) list \<Rightarrow> 'k \<Rightarrow> ('k \<times> 'v) list" where
  "Map_delete m k = filter (\<lambda>p. fst p \<noteq> k) m"

definition Set_add :: "'a list \<Rightarrow> 'a \<Rightarrow> 'a list" where
  "Set_add xs x = (if x \<in> set xs then xs else xs @ [x])"

definition Set_delete :: "'a list \<Rightarrow> 'a \<Rightarrow> 'a list" where
  "Set_delete xs x = filter (\<lambda>y. y \<noteq> x) xs"

text \<open>The member list of a room; the empty list when the room is not in the directory.\<close>

definition members :: "state \<Rightarrow> string \<Rightarrow> conn list" where
  "members s rid = (case Map_get (rooms s) rid of None \<Rightarrow> [] | Some ms \<Rightarrow> ms)"

subsection \<open>Broadcasts\<close>

text \<open>
  \<^verbatim>\<open>Array.from(set).map(client => { const info = clients.get(client); return { userId:
  info.userId, username: info.username }; })\<close>. For a member without a session,
  \<^verbatim>\<open>info\<close> is undefined and \<^verbatim>\<open>info.userId\<close> raises a TypeError: the result is \<open>None\<close>.
\<close>

fun users_of :: "(conn \<times> session) list \<Rightarrow> conn list \<Rightarrow> user list option" where
  "users_of cl [] = Some []"
| "users_of cl (client # rest) =
     (case Map_get cl client of
        None \<Rightarrow> None
      | Some info \<Rightarrow>
          (case users_of cl rest of
             None \<Rightarrow> None
           | Some us \<Rightarrow> Some ((userId info, username info) # us)))"

text \<open>
  \<^verbatim>\<open>broadcastToRoom(roomId, message, excludeWs = null)\<close>; the third argument is \<open>None\<close>
  for the default \<^verbatim>\<open>null\<close>. The function reads the transport state of every member.
\<close>

definition broadcastToRoom ::
  "state \<Rightarrow> (conn \<Rightarrow> readyState) \<Rightarrow> string \<Rightarrow> message \<Rightarrow> conn option \<Rightarrow> effect list" where
  "broadcastToRoom s rs rid msg excludeWs =
     (case Map_get (rooms s) rid of
        None \<Rightarrow> []
      | Some ms \<Rightarrow>
          map (\<lambda>client. Send client msg)
            (filter (\<lambda>client. Some client \<noteq> excludeWs \<and> rs client = OPEN) ms))"

text \<open>\<^verbatim>\<open>updateUserList(roomId)\<close>; \<open>None\<close> when building the roster raises.\<close>

definition updateUserList ::
  "state \<Rightarrow> (conn \<Rightarrow> readyState) \<Rightarrow> string \<Rightarrow> effect list option" where
  "updateUserList s rs rid =
     (case Map_get (rooms s) rid of
        None \<Rightarrow> Some []
      | Some ms \<Rightarrow>
          (case users_of (clients s) ms of
             None \<Rightarrow> None
           | Some users \<Rightarrow> Some (broadcastToRoom s rs rid (UserList users) None)))"

subsection \<open>Handlers\<close>

text \<open>
  \<^verbatim>\<open>handleJoin(ws, data)\<close> with \<^verbatim>\<open>data = {username, roomId}\<close>; \<open>uid\<close> is what
  \<^verbatim>\<open>generateUserId()\<close> returns in this call. The source creates the room's Set when
  the room is absent and then adds the connection to the Set in place; here that is one
  \<open>Map_set\<close> with the extended member list, which keeps the place of an existing room
  and puts a new room last. The registry and the directory are updated before anything
  that can raise, so the state returned with \<open>Threw\<close> holds both updates.
\<close>

definition handleJoin ::
  "state \<Rightarrow> (conn \<Rightarrow> readyState) \<Rightarrow> conn \<Rightarrow> string \<Rightarrow> string \<Rightarrow> string
     \<Rightarrow> state \<times> effect list \<times> completion" where
  "handleJoin s rs ws uname rid uid =
     (let cl = Map_set (clients s) ws \<lparr>userId = uid, username = uname, roomId = rid\<rparr>;
          present = (case Map_get (rooms s) rid of None \<Rightarrow> [] | Some ms \<Rightarrow> ms);
          s' = \<lparr>clients = cl, rooms = Map_set (rooms s) rid (Set_add present ws)\<rparr>
      in case users_of cl (filter (\<lambda>client. client \<noteq> ws) (members s' rid)) of
           None \<Rightarrow> (s', [], Threw)
         | Some existingUsers \<Rightarrow>
             (let reply = [Send ws (RoomJoined rid uid existingUsers)];
                  others = broadcastToRoom s' rs rid (UserJoined uid uname) (Some ws)
              in case updateUserList s' rs rid of
                   None \<Rightarrow> (s', reply @ others, Threw)
                 | Some refreshed \<Rightarrow>
                     (s', reply @ others @ refreshed @ [Log (JoinedRoom uname rid)], Returned)))"

text \<open>
  The loop of \<^verbatim>\<open>handleSignal\<close> over \<^verbatim>\<open>clients.entries()\<close>: the first entry whose
  session has the target's userId and the sender's roomId is sent the payload, and
  the loop ends there (\<^verbatim>\<open>break\<close>).
\<close>

fun findTarget :: "(conn \<times> session) list \<Rightarrow> session \<Rightarrow> string \<Rightarrow> json \<Rightarrow> effect list" where
  "findTarget [] sender targetId signal = []"
| "findTarget ((client, info) # rest) sender targetId signal =
     (if userId info = targetId \<and> roomId info = roomId sender
      then [Send client (SignalTo (userId sender) signal)]
      else findTarget rest sender targetId signal)"

definition handleSignal :: "state \<Rightarrow> conn \<Rightarrow> string \<Rightarrow> json \<Rightarrow> effect list" where
  "handleSignal s ws targetId signal =
     (case Map_get (clients s) ws of
        None \<Rightarrow> []
      | Some sender \<Rightarrow> findTarget (clients s) sender targetId signal)"

text \<open>
  \<^verbatim>\<open>handleLeave(ws)\<close>. When \<^verbatim>\<open>updateUserList\<close> raises, the member has been taken out
  of the room and \<^verbatim>\<open>user-left\<close> has been broadcast, but \<^verbatim>\<open>clients.delete(ws)\<close> is not
  reached.
\<close>

definition handleLeave ::
  "state \<Rightarrow> (conn \<Rightarrow> readyState) \<Rightarrow> conn \<Rightarrow> state \<times> effect list \<times> completion" where
  "handleLeave s rs ws =
     (case Map_get (clients s) ws of
        None \<Rightarrow> (s, [], Returned)
      | Some clientInfo \<Rightarrow>
          (case Map_get (rooms s) (roomId clientInfo) of
             None \<Rightarrow> (s\<lparr>clients := Map_delete (clients s) ws\<rparr>, [], Returned)
           | Some ms \<Rightarrow>
               (let rid = roomId clientInfo;
                    s1 = s\<lparr>rooms := Map_set (rooms s) rid (Set_delete ms ws)\<rparr>
                in if length (Set_delete ms ws) = 0
                   then (\<lparr>clients = Map_delete (clients s1) ws,
                          rooms = Map_delete (rooms s1) rid\<rparr>,
                         [Log (RoomRemoved rid)], Returned)
                   else (let departed = broadcastToRoom s1 rs rid
                                      (UserLeft (userId clientInfo) (username clientInfo)) None
                         in case updateUserList s1 rs rid of
                              None \<Rightarrow> (s1, departed, Threw)
                            | Some refreshed \<Rightarrow>
                                (s1\<lparr>clients := Map_delete (clients s1) ws\<rparr>,
                                 departed @ refreshed
                                   @ [Log (LeftRoom (username clientInfo) rid)],
                                 Returned)))))"

subsection \<open>Event listeners\<close>

text \<open>
  The \<^verbatim>\<open>try { ... } catch (error) { console.error(...) }\<close> around the dispatch: what
  a handler raised is logged, and the listener returns.
\<close>

definition catch :: "state \<times> effect list \<times> completion \<Rightarrow> state \<times> effect list" where
  "catch r =
     (case r of
        (s, out, Returned) \<Rightarrow> (s, out)
      | (s, out, Threw) \<Rightarrow> (s, out @ [Log ErrorHandlingMessage]))"

definition on_message ::
  "state \<Rightarrow> (conn \<Rightarrow> readyState) \<Rightarrow> conn \<Rightarrow> data \<Rightarrow> string \<Rightarrow> state \<times> effect list" where
  "on_message s rs ws d uid =
     (case d of
        SyntaxError \<Rightarrow> (s, [Log ErrorHandlingMessage])
      | Null \<Rightarrow> (s, [Log ErrorHandlingMessage])
      | Join uname rid \<Rightarrow> catch (handleJoin s rs ws uname rid uid)
      | Signal targetId signal \<Rightarrow> (s, handleSignal s ws targetId signal)
      | Leave \<Rightarrow> catch (handleLeave s rs ws)
      | Other \<Rightarrow> (s, [Log UnknownMessageType]))"

text \<open>
  The \<^verbatim>\<open>close\<close> listener calls \<^verbatim>\<open>handleLeave\<close> outside any \<^verbatim>\<open>try\<close>: what the handler
  raises leaves the listener uncaught, and the line after the call is not logged.
\<close>

definition on_close ::
  "state \<Rightarrow> (conn \<Rightarrow> readyState) \<Rightarrow> conn \<Rightarrow> state \<times> effect list \<times> completion" where
  "on_close s rs ws =
     (case handleLeave s rs ws of
        (s', out, Returned) \<Rightarrow> (s', out @ [Log ClientDisconnected], Returned)
      | (s', out, Threw) \<Rightarrow> (s', out, Threw))"

definition on_error :: "state \<Rightarrow> conn \<Rightarrow> state \<times> effect list" where
  "on_error s ws = (s, [Log WebSocketError])"

definition on_connection :: "state \<Rightarrow> conn \<Rightarrow> state \<times> effect list" where
  "on_connection s ws = (s, [Log NewClientConnected])"

text \<open>
  One event of the server: a new connection, a message on a connection (with the
  identifier \<^verbatim>\<open>generateUserId()\<close> would return), or the close or error event of a
  connection. \<open>rs\<close> is the transport state of every connection when the event is handled.
\<close>

datatype event =
    Connection conn
  | Message conn data string
  | Close conn
  | Error conn

definition step :: "(conn \<Rightarrow> readyState) \<Rightarrow> state \<Rightarrow> event \<Rightarrow> state \<times> effect list \<times> completion" where
  "step rs s e =
     (case e of
        Connection ws \<Rightarrow> (case on_connection s ws of (s', out) \<Rightarrow> (s', out, Returned))
      | Message ws d uid \<Rightarrow> (case on_message s rs ws d uid of (s', out) \<Rightarrow> (s', out, Returned))
      | Close ws \<Rightarrow> on_close s rs ws
      | Error ws \<Rightarrow> (case on_error s ws of (s', out) \<Rightarrow> (s', out, Returned)))"

text \<open>
  A run of events from a state; it ends where a listener raises (an uncaught exception
  ends the process).
\<close>

fun run :: "state \<Rightarrow> ((conn \<Rightarrow> readyState) \<times> event) list \<Rightarrow> state \<times> effect list \<times> completion" where
  "run s [] = (s, [], Returned)"
| "run s ((rs, e) # es) =
     (case step rs s e of
        (s', out, Threw) \<Rightarrow> (s', out, Threw)
      | (s', out, Returned) \<Rightarrow>
          (case run s' es of (s'', out', c) \<Rightarrow> (s'', out @ out', c)))"

inductive reachable :: "state \<Rightarrow> bool" where
  reachable_initial: "reachable initial"
| reachable_step: "reachable s \<Longrightarrow> step rs s e = (s', out, c) \<Longrightarrow> reachable s'"

text \<open>The messages a list of effects sends to one connection, in order.\<close>

definition sent_to :: "conn \<Rightarrow> effect list \<Rightarrow> message list" where
  "sent_to c out = concat (map (\<lambda>e. case e of Send c' m \<Rightarrow> (if c' = c then [m] else []) | Log l \<Rightarrow> []) out)"

definition sends :: "effect list \<Rightarrow> (conn \<times> message) list" where
  "sends out = concat (map (\<lambda>e. case e of Send c m \<Rightarrow> [(c, m)] | Log l \<Rightarrow> []) out)"

subsection \<open>Example states\<close>

text \<open>Every connection's transport is open.\<close>

definition all_open :: "conn \<Rightarrow> readyState" where
  "all_open = (\<lambda>_. OPEN)"

text \<open>Connection 0 has joined room \<^verbatim>\<open>r1\<close> and is alone there.\<close>

definition alice_alone :: state where
  "alice_alone = \<lparr>clients = [(0, \<lparr>userId = ''a1'', username = ''alice'', roomId = ''r1''\<rparr>)],
                   rooms = [(''r1'', [0])]\<rparr>"

text \<open>Connections 0 and 1 have joined room \<^verbatim>\<open>r1\<close>, in this order.\<close>

definition pair :: state where
  "pair = \<lparr>clients = [(0, \<lparr>userId = ''a1'', username = ''alice'', roomId = ''r1''\<rparr>),
                       (1, \<lparr>userId = ''b1'', username = ''bob'', roomId = ''r1''\<rparr>)],
            rooms = [(''r1'', [0, 1])]\<rparr>"

text \<open>
  Four connections have joined; the identifier generator returned the same value for
  the last three, two of which are in the room of connection 0.
\<close>

definition twins :: state where
  "twins = \<lparr>clients = [(0, \<lparr>userId = ''a'', username = ''alice'', roomId = ''r''\<rparr>),
                        (1, \<lparr>userId = ''x'', username = ''bob'', roomId = ''q''\<rparr>),
                        (2, \<lparr>userId = ''x'', username = ''carol'', roomId = ''r''\<rparr>),
                        (3, \<lparr>userId = ''x'', username = ''dave'', roomId = ''r''\<rparr>)],
             rooms = [(''r'', [0, 2, 3]), (''q'', [1])]\<rparr>"

text \<open>
  Connection 1 is bound to room \<^verbatim>\<open>r1\<close> and no longer in its member set; connection 0
  has no session and is still in the member set of \<^verbatim>\<open>r1\<close>.
\<close>

definition haunted :: state where
  "haunted = \<lparr>clients = [(1, \<lparr>userId = ''b1'', username = ''bob'', roomId = ''r1''\<rparr>)],
               rooms = [(''r1'', [0])]\<rparr>"

subsection \<open>Invariants\<close>

text \<open>Every member set in the directory is non-empty.\<close>

definition rooms_nonempty :: "state \<Rightarrow> bool" where
  "rooms_nonempty s = (\<forall>rid ms. Map_get (rooms s) rid = Some ms \<longrightarrow> ms \<noteq> [])"

text \<open>
  Every member of every room has a session, the session names that room, and no member
  is listed twice.
\<close>

definition consistent :: "state \<Rightarrow> bool" where
  "consistent s =
     (\<forall>rid ms. Map_get (rooms s) rid = Some ms \<longrightarrow>
        distinct ms \<and>
        (\<forall>c \<in> set ms. \<exists>info. Map_get (clients s) c = Some info \<and> roomId info = rid))"

text \<open>The event is not a \<^verbatim>\<open>join\<close> on a connection that has a session.\<close>

definition first_join :: "state \<Rightarrow> event \<Rightarrow> bool" where
  "first_join s e =
     (case e of
        Message ws d uid \<Rightarrow>
          (case d of Join uname rid \<Rightarrow> Map_get (clients s) ws = None | _ \<Rightarrow> True)
      | _ \<Rightarrow> True)"

text \<open>The states reached by events none of which is a second join.\<close>

inductive regular :: "state \<Rightarrow> bool" where
  regular_initial: "regular initial"
| regular_step: "regular s \<Longrightarrow> first_join s e \<Longrightarrow> step rs s e = (s', out, c) \<Longrightarrow> regular s'"

section \<open>Properties\<close>

subsection \<open>Evaluation of the examples\<close>

lemmas handler_defs = step_def on_message_def on_close_def on_error_def on_connection_def
  handleJoin_def handleLeave_def handleSignal_def catch_def initial_def Map_get_def Map_has_def
  Map_delete_def members_def Set_add_def Set_delete_def broadcastToRoom_def updateUserList_def
  Let_def

lemma twins_run:
  "run initial [(all_open, Message 0 (Join ''alice'' ''r'') ''a''),
                (all_open, Message 1 (Join ''bob'' ''q'') ''x''),
                (all_open, Message 2 (Join ''carol'' ''r'') ''x''),
                (all_open, Message 3 (Join ''dave'' ''r'') ''x'')] =
   (twins, 
    [Send 0 (RoomJoined ''r'' ''a'' []), Send 0 (UserList [(''a'', ''alice'')]),
     Log (JoinedRoom ''alice'' ''r''),
     Send 1 (RoomJoined ''q'' ''x'' []), Send 1 (UserList [(''x'', ''bob'')]),
     Log (JoinedRoom ''bob'' ''q''),
     Send 2 (RoomJoined ''r'' ''x'' [(''a'', ''alice'')]), Send 0 (UserJoined ''x'' ''carol''),
     Send 0 (UserList [(''a'', ''alice''), (''x'', ''carol'')]),
     Send 2 (UserList [(''a'', ''alice''), (''x'', ''carol'')]),
     Log (JoinedRoom ''carol'' ''r''),
     Send 3 (RoomJoined ''r'' ''x'' [(''a'', ''alice''), (''x'', ''carol'')]),
     Send 0 (UserJoined ''x'' ''dave''), Send 2 (UserJoined ''x'' ''dave''),
     Send 0 (UserList [(''a'', ''alice''), (''x'', ''carol''), (''x'', ''dave'')]),
     Send 2 (UserList [(''a'', ''alice''), (''x'', ''carol''), (''x'', ''dave'')]),
     Send 3 (UserList [(''a'', ''alice''), (''x'', ''carol''), (''x'', ''dave'')]),
     Log (JoinedRoom ''dave'' ''r'')], Returned)"
  by (simp add: handler_defs all_open_def twins_def)

subsection \<open>Map and Set operations\<close>

lemma Map_get_Map_set:
  "Map_get (Map_set m k v) k' = (if k' = k then Some v else Map_get m k')"
  by (induction m) (auto simp: Map_get_def)

lemma Map_get_Map_delete:
  "Map_get (Map_delete m k) k' = (if k' = k then None else Map_get m k')"
  by (induction m) (auto simp: Map_get_def Map_delete_def)

lemma Map_has_get: "Map_has m k \<longleftrightarrow> Map_get m k \<noteq> None"
  by (simp add: Map_has_def Map_get_def)

lemma set_Set_add: "set (Set_add xs x) = insert x (set xs)"
  by (auto simp: Set_add_def)

lemma set_Set_delete: "set (Set_delete xs x) = set xs - {x}"
  by (auto simp: Set_delete_def)

lemma Set_add_nonempty: "Set_add xs x \<noteq> []"
  by (auto simp: Set_add_def)

subsection \<open>What the handlers do to the registry and the directory\<close>

lemma rooms_handleJoin:
  "rooms (fst (handleJoin s rs ws uname rid uid)) = Map_set (rooms s) rid (Set_add (members s rid) ws)"
  by (simp add: handleJoin_def Let_def members_def split: option.splits)

lemma clients_handleJoin:
  "clients (fst (handleJoin s rs ws uname rid uid)) =
     Map_set (clients s) ws \<lparr>userId = uid, username = uname, roomId = rid\<rparr>"
  by (simp add: handleJoin_def Let_def split: option.splits)

lemma rooms_handleLeave:
  "rooms (fst (handleLeave s rs ws)) =
     (case Map_get (clients s) ws of
        None \<Rightarrow> rooms s
      | Some info \<Rightarrow>
          (case Map_get (rooms s) (roomId info) of
             None \<Rightarrow> rooms s
           | Some ms \<Rightarrow>
               if Set_delete ms ws = []
               then Map_delete (Map_set (rooms s) (roomId info) (Set_delete ms ws)) (roomId info)
               else Map_set (rooms s) (roomId info) (Set_delete ms ws)))"
  by (simp add: handleLeave_def Let_def split: option.splits)

lemma fst_catch: "fst (catch r) = fst r"
  by (cases r rule: prod_cases3) (simp add: catch_def split: completion.splits)

lemma fst_on_close: "fst (on_close s rs ws) = fst (handleLeave s rs ws)"
  by (cases "handleLeave s rs ws" rule: prod_cases3) (simp add: on_close_def split: completion.splits)

subsection \<open>Rosters\<close>

lemma users_of_bound:
  "users_of cl cs = Some us \<Longrightarrow> c \<in> set cs \<Longrightarrow> Map_get cl c \<noteq> None"
  by (induction cs arbitrary: us) (auto split: option.splits)

lemma users_of_cong:
  "(\<And>c. c \<in> set cs \<Longrightarrow> Map_get cl' c = Map_get cl c) \<Longrightarrow> users_of cl' cs = users_of cl cs"
  by (induction cs) (auto split: option.splits)

lemma users_of_snoc:
  "users_of cl cs = Some us \<Longrightarrow> Map_get cl c = Some info \<Longrightarrow>
     users_of cl (cs @ [c]) = Some (us @ [(userId info, username info)])"
  by (induction cs arbitrary: us) (auto split: option.splits)

lemma users_of_total:
  "(\<And>c. c \<in> set cs \<Longrightarrow> Map_get cl c \<noteq> None) \<Longrightarrow> \<exists>us. users_of cl cs = Some us"
  by (induction cs) (auto split: option.splits)

lemma users_of_list_all2:
  "users_of cl cs = Some us \<longleftrightarrow>
     list_all2 (\<lambda>c u. \<exists>info. Map_get cl c = Some info \<and> u = (userId info, username info)) cs us"
proof (induction cs arbitrary: us)
  case Nil
  show ?case by auto
next
  case (Cons c cs)
  show ?case
    by (cases us) (auto simp: Cons.IH [symmetric] split: option.splits)
qed

subsection \<open>Messages to one connection\<close>

lemma sent_to_Nil: "sent_to c [] = []"
  by (simp add: sent_to_def)

lemma sent_to_append: "sent_to c (xs @ ys) = sent_to c xs @ sent_to c ys"
  by (simp add: sent_to_def)

lemma sent_to_Cons_Send: "sent_to c (Send c' m # xs) = (if c' = c then m # sent_to c xs else sent_to c xs)"
  by (simp add: sent_to_def)

lemma sent_to_Log: "sent_to c [Log l] = []"
  by (simp add: sent_to_def)

lemma sent_to_absent:
  "c \<notin> set cs \<Longrightarrow> sent_to c (map (\<lambda>c'. Send c' m) cs) = []"
  by (induction cs) (auto simp: sent_to_def)

lemma sent_to_broadcast:
  "distinct cs \<Longrightarrow>
     sent_to c (map (\<lambda>c'. Send c' m) (filter P cs)) = (if c \<in> set cs \<and> P c then [m] else [])"
proof (induction cs)
  case Nil
  show ?case by (simp add: sent_to_def)
next
  case (Cons a cs)
  then show ?case
    by (auto simp: sent_to_Cons_Send sent_to_absent)
qed

subsection \<open>A join on a connection that has a session\<close>

text \<open>
  Claim C1 fails on the code: \<^verbatim>\<open>handleJoin\<close> does not look the connection up before it
  binds the session. Connection 0 is in room \<^verbatim>\<open>r1\<close> as \<^verbatim>\<open>alice\<close>; a second \<^verbatim>\<open>join\<close> on
  it gives it a new userId, username and roomId, creates room \<^verbatim>\<open>r2\<close> with the connection
  in it, sends two messages, and leaves the connection in the member set of \<^verbatim>\<open>r1\<close>.
\<close>

theorem second_join_rebinds_session:
  "on_message alice_alone all_open 0 (Join ''mallory'' ''r2'') ''a2'' =
     (\<lparr>clients = [(0, \<lparr>userId = ''a2'', username = ''mallory'', roomId = ''r2''\<rparr>)],
       rooms = [(''r1'', [0]), (''r2'', [0])]\<rparr>,
      [Send 0 (RoomJoined ''r2'' ''a2'' []), Send 0 (UserList [(''a2'', ''mallory'')]),
       Log (JoinedRoom ''mallory'' ''r2'')])"
  by (simp add: handler_defs alice_alone_def all_open_def)

text \<open>
  What a second join leaves behind ends the server later. After connection 0 has moved
  from \<^verbatim>\<open>r1\<close> to \<^verbatim>\<open>r2\<close> and closed, room \<^verbatim>\<open>r1\<close> still lists it; when connection 1 closes, the
  roster of \<^verbatim>\<open>r1\<close> reads the session of connection 0, which is gone, and the close
  listener raises.
\<close>

lemma second_join_then_close_raises:
  "run initial [(all_open, Message 0 (Join ''alice'' ''r1'') ''a1''),
                (all_open, Message 1 (Join ''bob'' ''r1'') ''b1''),
                (all_open, Message 0 (Join ''alice'' ''r2'') ''a2''),
                (all_open(0 := CLOSED), Close 0),
                (all_open(0 := CLOSED, 1 := CLOSED), Close 1)] =
     (haunted,
      [Send 0 (RoomJoined ''r1'' ''a1'' []), Send 0 (UserList [(''a1'', ''alice'')]),
       Log (JoinedRoom ''alice'' ''r1''),
       Send 1 (RoomJoined ''r1'' ''b1'' [(''a1'', ''alice'')]), Send 0 (UserJoined ''b1'' ''bob''),
       Send 0 (UserList [(''a1'', ''alice''), (''b1'', ''bob'')]),
       Send 1 (UserList [(''a1'', ''alice''), (''b1'', ''bob'')]),
       Log (JoinedRoom ''bob'' ''r1''),
       Send 0 (RoomJoined ''r2'' ''a2'' []), Send 0 (UserList [(''a2'', ''alice'')]),
       Log (JoinedRoom ''alice'' ''r2''),
       Log (RoomRemoved ''r2''), Log ClientDisconnected],
      Threw)"
  by (simp add: handler_defs haunted_def all_open_def)

subsection \<open>Targeted signalling\<close>

lemma findTarget_length: "length (findTarget cl sender t sg) \<le> 1"
  by (induction cl sender t sg rule: findTarget.induct) auto

lemma findTarget_nonempty:
  "findTarget cl sender t sg \<noteq> [] \<longleftrightarrow>
     (\<exists>p \<in> set cl. userId (snd p) = t \<and> roomId (snd p) = roomId sender)"
  by (induction cl sender t sg rule: findTarget.induct) auto

lemma findTarget_member:
  "e \<in> set (findTarget cl sender t sg) \<Longrightarrow>
     \<exists>c info. e = Send c (SignalTo (userId sender) sg) \<and> (c, info) \<in> set cl
        \<and> userId info = t \<and> roomId info = roomId sender"
  by (induction cl sender t sg rule: findTarget.induct) (auto split: if_splits)

lemma findTarget_first:
  "\<forall>p \<in> set earlier. \<not> (userId (snd p) = t \<and> roomId (snd p) = roomId sender) \<Longrightarrow>
   userId info = t \<and> roomId info = roomId sender \<Longrightarrow>
   findTarget (earlier @ (c, info) # later) sender t sg = [Send c (SignalTo (userId sender) sg)]"
  by (induction earlier) auto

text \<open>
  Claim C2. A \<^verbatim>\<open>signal\<close> message from a connection with a session changes no state and
  makes at most one call of \<^verbatim>\<open>send\<close>. The call is made if and only if some entry of
  the registry has the target's userId and the sender's roomId; what is sent is
  \<^verbatim>\<open>{type: 'signal', fromId: sender.userId, signal}\<close>, to a connection whose session has
  that userId and that roomId. So no other member of the room and no connection of
  another room is sent anything, and when there is no such entry nothing is sent at all,
  not to the sender either.
\<close>

theorem signal_delivery:
  assumes "Map_get (clients s) ws = Some sender"
  shows "on_message s rs ws (Signal targetId signal) uid = (s, handleSignal s ws targetId signal)
     \<and> length (handleSignal s ws targetId signal) \<le> 1
     \<and> (handleSignal s ws targetId signal \<noteq> [] \<longleftrightarrow>
          (\<exists>p \<in> set (clients s). userId (snd p) = targetId \<and> roomId (snd p) = roomId sender))
     \<and> (\<forall>e \<in> set (handleSignal s ws targetId signal).
          \<exists>c info. e = Send c (SignalTo (userId sender) signal) \<and> (c, info) \<in> set (clients s)
             \<and> userId info = targetId \<and> roomId info = roomId sender)"
proof -
  have run: "handleSignal s ws targetId signal = findTarget (clients s) sender targetId signal"
    using assms by (simp add: handleSignal_def)
  have "on_message s rs ws (Signal targetId signal) uid = (s, handleSignal s ws targetId signal)"
    by (simp add: on_message_def)
  moreover have "length (handleSignal s ws targetId signal) \<le> 1"
    unfolding run by (rule findTarget_length)
  moreover have "handleSignal s ws targetId signal \<noteq> [] \<longleftrightarrow>
      (\<exists>p \<in> set (clients s). userId (snd p) = targetId \<and> roomId (snd p) = roomId sender)"
    unfolding run by (rule findTarget_nonempty)
  moreover have "\<forall>e \<in> set (handleSignal s ws targetId signal).
      \<exists>c info. e = Send c (SignalTo (userId sender) signal) \<and> (c, info) \<in> set (clients s)
         \<and> userId info = targetId \<and> roomId info = roomId sender"
    unfolding run using findTarget_member by blast
  ultimately show ?thesis by blast
qed

theorem signal_delivery_witness:
  "Map_get (clients twins) 0 = Some \<lparr>userId = ''a'', username = ''alice'', roomId = ''r''\<rparr>
   \<and> on_message twins all_open 0 (Signal ''x'' ''offer'') '''' = (twins, [Send 2 (SignalTo ''a'' ''offer'')])
   \<and> on_message twins all_open 0 (Signal ''nobody'' ''offer'') '''' = (twins, [])"
proof -
  have bound: "Map_get (clients twins) 0 = Some \<lparr>userId = ''a'', username = ''alice'', roomId = ''r''\<rparr>"
    by (simp add: twins_def Map_get_def)
  have "handleSignal twins 0 ''x'' ''offer'' = [Send 2 (SignalTo ''a'' ''offer'')]"
    by (simp add: twins_def handleSignal_def Map_get_def)
  moreover have "handleSignal twins 0 ''nobody'' ''offer'' = []"
    by (simp add: twins_def handleSignal_def Map_get_def)
  ultimately show ?thesis
    using bound signal_delivery [OF bound, of all_open "''x''" "''offer''" "''''"]
      signal_delivery [OF bound, of all_open "''nobody''" "''offer''" "''''"]
    by simp
qed

text \<open>
  Claim C10. When several sessions of the sender's room have the target's userId, the
  payload goes to one connection only: the first matching entry in the iteration order
  of the registry, whatever follows it.
\<close>

theorem signal_first_match:
  assumes "Map_get (clients s) ws = Some sender"
    and "clients s = earlier @ (c, info) # later"
    and "\<forall>p \<in> set earlier. \<not> (userId (snd p) = targetId \<and> roomId (snd p) = roomId sender)"
    and "userId info = targetId \<and> roomId info = roomId sender"
  shows "handleSignal s ws targetId signal = [Send c (SignalTo (userId sender) signal)]"
  using assms by (simp add: handleSignal_def findTarget_first)

theorem signal_first_match_witness:
  "Map_get (clients twins) 0 = Some \<lparr>userId = ''a'', username = ''alice'', roomId = ''r''\<rparr>
   \<and> clients twins =
       [(0, \<lparr>userId = ''a'', username = ''alice'', roomId = ''r''\<rparr>),
        (1, \<lparr>userId = ''x'', username = ''bob'', roomId = ''q''\<rparr>)]
       @ (2, \<lparr>userId = ''x'', username = ''carol'', roomId = ''r''\<rparr>)
       # [(3, \<lparr>userId = ''x'', username = ''dave'', roomId = ''r''\<rparr>)]
   \<and> handleSignal twins 0 ''x'' ''offer'' = [Send 2 (SignalTo ''a'' ''offer'')]"
proof -
  have bound: "Map_get (clients twins) 0 = Some \<lparr>userId = ''a'', username = ''alice'', roomId = ''r''\<rparr>"
    by (simp add: twins_def Map_get_def)
  have split: "clients twins =
       [(0, \<lparr>userId = ''a'', username = ''alice'', roomId = ''r''\<rparr>),
        (1, \<lparr>userId = ''x'', username = ''bob'', roomId = ''q''\<rparr>)]
       @ (2, \<lparr>userId = ''x'', username = ''carol'', roomId = ''r''\<rparr>)
       # [(3, \<lparr>userId = ''x'', username = ''dave'', roomId = ''r''\<rparr>)]"
    by (simp add: twins_def)
  have "handleSignal twins 0 ''x'' ''offer'' = [Send 2 (SignalTo ''a'' ''offer'')]"
    using signal_first_match [OF bound split, of "''x''" "''offer''"] by simp
  with bound split show ?thesis by blast
qed

subsection \<open>Leave, close and error\<close>

text \<open>
  Claim C3, as stated, fails: the \<^verbatim>\<open>error\<close> listener only logs. On a connection with a
  session the error event leaves the session and the room as they are, where the leave
  handler would remove both.
\<close>

theorem error_event_runs_no_cleanup:
  "step all_open alice_alone (Error 0) = (alice_alone, [Log WebSocketError], Returned)
   \<and> fst (handleLeave alice_alone all_open 0) = initial
   \<and> alice_alone \<noteq> initial"
  by (simp add: handler_defs alice_alone_def all_open_def)

text \<open>
  Claim C3, amended. A \<^verbatim>\<open>leave\<close> message and the transport's close event both run
  \<^verbatim>\<open>handleLeave\<close>: the message listener inside its \<^verbatim>\<open>try\<close>, the close listener directly,
  with the same state and the same messages sent. The error event runs no cleanup: it
  changes nothing and sends nothing. So when both the error and the close event fire
  for a connection, in either order, the cleanup runs once, in the close listener.
\<close>

theorem leave_and_close_run_handleLeave:
  "on_message s rs ws Leave uid = catch (handleLeave s rs ws)
   \<and> fst (on_close s rs ws) = fst (handleLeave s rs ws)
   \<and> sends (fst (snd (on_close s rs ws))) = sends (fst (snd (handleLeave s rs ws)))
   \<and> on_error s ws = (s, [Log WebSocketError])
   \<and> run s [(rs, Error ws), (rs', Close ws)] =
       (case on_close s rs' ws of (s', out, c) \<Rightarrow> (s', Log WebSocketError # out, c))
   \<and> run s [(rs, Close ws), (rs', Error ws)] =
       (case on_close s rs ws of
          (s', out, Returned) \<Rightarrow> (s', out @ [Log WebSocketError], Returned)
        | (s', out, Threw) \<Rightarrow> (s', out, Threw))"
proof -
  obtain s' out c where hl: "handleLeave s rs ws = (s', out, c)"
    by (cases "handleLeave s rs ws" rule: prod_cases3)
  obtain s2 out2 c2 where hl2: "handleLeave s rs' ws = (s2, out2, c2)"
    by (cases "handleLeave s rs' ws" rule: prod_cases3)
  show ?thesis
    by (cases c; cases c2)
      (simp_all add: hl hl2 on_message_def on_close_def on_error_def step_def sends_def)
qed

theorem leave_and_close_run_handleLeave_witness:
  "on_message alice_alone all_open 0 Leave '''' = (initial, [Log (RoomRemoved ''r1'')])
   \<and> on_close alice_alone all_open 0 = (initial, [Log (RoomRemoved ''r1''), Log ClientDisconnected], Returned)
   \<and> run alice_alone [(all_open, Error 0), (all_open, Close 0)] =
        (initial, [Log WebSocketError, Log (RoomRemoved ''r1''), Log ClientDisconnected], Returned)
   \<and> run alice_alone [(all_open, Close 0), (all_open, Error 0)] =
        (initial, [Log (RoomRemoved ''r1''), Log ClientDisconnected, Log WebSocketError], Returned)"
proof -
  have hl: "handleLeave alice_alone all_open 0 = (initial, [Log (RoomRemoved ''r1'')], Returned)"
    by (simp add: handleLeave_def alice_alone_def initial_def Map_get_def Map_delete_def Set_delete_def)
  have oc: "on_close alice_alone all_open 0 =
      (initial, [Log (RoomRemoved ''r1''), Log ClientDisconnected], Returned)"
    by (simp add: on_close_def hl)
  show ?thesis
    using leave_and_close_run_handleLeave [of alice_alone all_open 0 "''''" all_open]
    by (simp add: hl oc catch_def)
qed

subsection \<open>No empty room\<close>

lemma rooms_nonempty_handleJoin:
  "rooms_nonempty s \<Longrightarrow> rooms_nonempty (fst (handleJoin s rs ws uname rid uid))"
  by (simp add: rooms_nonempty_def rooms_handleJoin Map_get_Map_set Set_add_nonempty)

lemma rooms_nonempty_handleLeave:
  "rooms_nonempty s \<Longrightarrow> rooms_nonempty (fst (handleLeave s rs ws))"
  by (auto simp: rooms_nonempty_def rooms_handleLeave Map_get_Map_set Map_get_Map_delete
      split: option.splits if_splits)

lemma rooms_nonempty_step:
  "rooms_nonempty s \<Longrightarrow> rooms_nonempty (fst (step rs s e))"
proof (cases e)
  case (Connection ws)
  then show "rooms_nonempty s \<Longrightarrow> ?thesis" by (simp add: step_def on_connection_def)
next
  case (Message ws d uid)
  then show "rooms_nonempty s \<Longrightarrow> ?thesis"
    by (cases d)
      (simp_all add: step_def on_message_def split_beta fst_catch
        rooms_nonempty_handleJoin rooms_nonempty_handleLeave)
next
  case (Close ws)
  then show "rooms_nonempty s \<Longrightarrow> ?thesis"
    by (simp add: step_def fst_on_close rooms_nonempty_handleLeave)
next
  case (Error ws)
  then show "rooms_nonempty s \<Longrightarrow> ?thesis" by (simp add: step_def on_error_def)
qed

lemma reachable_rooms_nonempty: "reachable s \<Longrightarrow> rooms_nonempty s"
proof (induction rule: reachable.induct)
  case reachable_initial
  show ?case by (simp add: rooms_nonempty_def initial_def Map_get_def)
next
  case (reachable_step s rs e s' out c)
  then show ?case using rooms_nonempty_step [of s rs e] by simp
qed

lemma rooms_nonempty_iff:
  "rooms_nonempty s \<longleftrightarrow> (\<forall>rid. Map_has (rooms s) rid \<longleftrightarrow> members s rid \<noteq> [])"
  by (auto simp: rooms_nonempty_def Map_has_get members_def split: option.splits)

text \<open>
  Claim C4. In every state the server reaches, a room identifier is in the directory if
  and only if its member set is non-empty. A join puts the room into the directory, with
  the joining connection among its members; a leave of the last member of the session's
  room takes the room out of the directory.
\<close>

theorem room_exists_iff_members:
  "(reachable s \<longrightarrow> (\<forall>rid. Map_has (rooms s) rid \<longleftrightarrow> members s rid \<noteq> []))
   \<and> Map_has (rooms (fst (handleJoin s rs ws uname rid uid))) rid
   \<and> ws \<in> set (members (fst (handleJoin s rs ws uname rid uid)) rid)
   \<and> (Map_get (clients s) ws = Some info \<and> Set_delete (members s (roomId info)) ws = []
        \<longrightarrow> \<not> Map_has (rooms (fst (handleLeave s rs ws))) (roomId info))"
proof -
  have "reachable s \<longrightarrow> (\<forall>rid. Map_has (rooms s) rid \<longleftrightarrow> members s rid \<noteq> [])"
    using reachable_rooms_nonempty rooms_nonempty_iff by blast
  moreover have "Map_has (rooms (fst (handleJoin s rs ws uname rid uid))) rid"
    by (simp add: Map_has_get rooms_handleJoin Map_get_Map_set)
  moreover have "ws \<in> set (members (fst (handleJoin s rs ws uname rid uid)) rid)"
    by (simp add: members_def rooms_handleJoin Map_get_Map_set set_Set_add)
  moreover have "Map_get (clients s) ws = Some info \<and> Set_delete (members s (roomId info)) ws = []
        \<longrightarrow> \<not> Map_has (rooms (fst (handleLeave s rs ws))) (roomId info)"
    by (auto simp: Map_has_get rooms_handleLeave Map_get_Map_delete members_def split: option.splits)
  ultimately show ?thesis by blast
qed

lemma reachable_alice_alone: "reachable alice_alone"
proof -
  have "step all_open initial (Message 0 (Join ''alice'' ''r1'') ''a1'') =
     (alice_alone, [Send 0 (RoomJoined ''r1'' ''a1'' []), Send 0 (UserList [(''a1'', ''alice'')]),
        Log (JoinedRoom ''alice'' ''r1'')], Returned)"
    by (simp add: handler_defs all_open_def alice_alone_def)
  with reachable_initial show ?thesis by (rule reachable_step)
qed

theorem room_exists_iff_members_witness:
  "reachable alice_alone
   \<and> Map_has (rooms alice_alone) ''r1'' \<and> members alice_alone ''r1'' = [0]
   \<and> \<not> Map_has (rooms alice_alone) ''r2'' \<and> members alice_alone ''r2'' = []
   \<and> Map_has (rooms (fst (handleJoin alice_alone all_open 1 ''bob'' ''r2'' ''b1''))) ''r2''
   \<and> Map_get (clients alice_alone) 0 = Some \<lparr>userId = ''a1'', username = ''alice'', roomId = ''r1''\<rparr>
   \<and> Set_delete (members alice_alone ''r1'') 0 = []
   \<and> \<not> Map_has (rooms (fst (handleLeave alice_alone all_open 0))) ''r1''"
proof -
  have eval: "members alice_alone ''r1'' = [0]" "members alice_alone ''r2'' = []"
    "Map_get (clients alice_alone) 0 = Some \<lparr>userId = ''a1'', username = ''alice'', roomId = ''r1''\<rparr>"
    by (simp_all add: alice_alone_def members_def Map_get_def)
  have del: "Set_delete (members alice_alone ''r1'') 0 = []"
    by (simp add: eval Set_delete_def)
  show ?thesis
    using reachable_alice_alone eval del
      room_exists_iff_members [of alice_alone all_open 1 "''bob''" "''r2''" "''b1''"
         "\<lparr>userId = ''a1'', username = ''alice'', roomId = ''r1''\<rparr>"]
      room_exists_iff_members [of alice_alone all_open 0 "''bob''" "''r2''" "''b1''"
         "\<lparr>userId = ''a1'', username = ''alice'', roomId = ''r1''\<rparr>"]
    by simp
qed

subsection \<open>Leaving a room\<close>

lemma broadcastToRoom_all:
  "Map_get (rooms s) rid = Some ms \<Longrightarrow>
     broadcastToRoom s rs rid msg None = map (\<lambda>c. Send c msg) (filter (\<lambda>c. rs c = OPEN) ms)"
  by (simp add: broadcastToRoom_def)

lemma broadcastToRoom_others:
  "Map_get (rooms s) rid = Some (ms @ [ws]) \<Longrightarrow> ws \<notin> set ms \<Longrightarrow>
     broadcastToRoom s rs rid msg (Some ws) = map (\<lambda>c. Send c msg) (filter (\<lambda>c. rs c = OPEN) ms)"
proof -
  assume room: "Map_get (rooms s) rid = Some (ms @ [ws])" and fresh: "ws \<notin> set ms"
  have "filter (\<lambda>c. Some c \<noteq> Some ws \<and> rs c = OPEN) ms = filter (\<lambda>c. rs c = OPEN) ms"
    using fresh by (intro filter_cong) auto
  then show ?thesis
    using room by (simp add: broadcastToRoom_def)
qed

lemma handleLeave_last:
  assumes "Map_get (clients s) ws = Some info"
    and "Map_get (rooms s) (roomId info) = Some ms"
    and "Set_delete ms ws = []"
  shows "handleLeave s rs ws =
     (\<lparr>clients = Map_delete (clients s) ws,
       rooms = Map_delete (Map_set (rooms s) (roomId info) []) (roomId info)\<rparr>,
      [Log (RoomRemoved (roomId info))], Returned)"
  using assms by (simp add: handleLeave_def Let_def)

lemma handleLeave_others:
  assumes "Map_get (clients s) ws = Some info"
    and "Map_get (rooms s) (roomId info) = Some ms"
    and "users_of (clients s) (Set_delete ms ws) = Some users"
    and "Set_delete ms ws \<noteq> []"
  shows "handleLeave s rs ws =
     (\<lparr>clients = Map_delete (clients s) ws,
       rooms = Map_set (rooms s) (roomId info) (Set_delete ms ws)\<rparr>,
      map (\<lambda>c. Send c (UserLeft (userId info) (username info)))
          (filter (\<lambda>c. rs c = OPEN) (Set_delete ms ws))
      @ map (\<lambda>c. Send c (UserList users)) (filter (\<lambda>c. rs c = OPEN) (Set_delete ms ws))
      @ [Log (LeftRoom (username info) (roomId info))],
      Returned)"
proof -
  let ?s1 = "s\<lparr>rooms := Map_set (rooms s) (roomId info) (Set_delete ms ws)\<rparr>"
  have room1: "Map_get (rooms ?s1) (roomId info) = Some (Set_delete ms ws)"
    by (simp add: Map_get_Map_set)
  have upd: "updateUserList ?s1 rs (roomId info) =
      Some (map (\<lambda>c. Send c (UserList users)) (filter (\<lambda>c. rs c = OPEN) (Set_delete ms ws)))"
    using assms(3) room1 by (simp add: updateUserList_def broadcastToRoom_all)
  have bc: "broadcastToRoom ?s1 rs (roomId info) (UserLeft (userId info) (username info)) None =
      map (\<lambda>c. Send c (UserLeft (userId info) (username info)))
        (filter (\<lambda>c. rs c = OPEN) (Set_delete ms ws))"
    using room1 by (rule broadcastToRoom_all)
  show ?thesis
    using assms(1,2,4) by (simp add: handleLeave_def Let_def upd bc)
qed

text \<open>
  Claim C5, as stated, fails: a remaining member whose transport is not open is sent
  neither message. Connections 0 and 1 are in room \<^verbatim>\<open>r1\<close>, the transport of connection 1
  is closing, and connection 0 leaves; connection 1 remains a member and is sent nothing.
\<close>

theorem leave_skips_closing_member:
  "members (fst (handleLeave pair (all_open(1 := CLOSING)) 0)) ''r1'' = [1]
   \<and> sent_to 1 (fst (snd (handleLeave pair (all_open(1 := CLOSING)) 0))) = []"
  by (simp add: handler_defs pair_def all_open_def sent_to_def)

text \<open>
  Claim C5, amended. A connection with a session leaves (or closes); \<open>ms\<close> is the member
  set of its room, and every member that remains has a session, \<open>users\<close> being their
  roster in the order of the member set. If members remain, the handler sends
  \<^verbatim>\<open>user-left\<close> with the userId and username of the departed session to every remaining
  member whose transport is open, then \<^verbatim>\<open>user-list\<close> with \<open>users\<close> to the same members,
  and nothing else: a remaining member with an open transport is sent exactly these two
  messages in this order, any other remaining member nothing. If no member remains, the
  room is removed and nothing is sent.
\<close>

theorem leave_notifies_open_members:
  assumes "Map_get (clients s) ws = Some info"
    and "Map_get (rooms s) (roomId info) = Some ms"
    and "distinct ms"
    and "users_of (clients s) (Set_delete ms ws) = Some users"
  shows "(Set_delete ms ws \<noteq> [] \<longrightarrow>
            handleLeave s rs ws =
              (\<lparr>clients = Map_delete (clients s) ws,
                rooms = Map_set (rooms s) (roomId info) (Set_delete ms ws)\<rparr>,
               map (\<lambda>c. Send c (UserLeft (userId info) (username info)))
                   (filter (\<lambda>c. rs c = OPEN) (Set_delete ms ws))
               @ map (\<lambda>c. Send c (UserList users)) (filter (\<lambda>c. rs c = OPEN) (Set_delete ms ws))
               @ [Log (LeftRoom (username info) (roomId info))],
               Returned)
            \<and> (\<forall>c \<in> set (Set_delete ms ws).
                  sent_to c (fst (snd (handleLeave s rs ws))) =
                    (if rs c = OPEN
                     then [UserLeft (userId info) (username info), UserList users] else [])))
       \<and> (Set_delete ms ws = [] \<longrightarrow>
            handleLeave s rs ws =
              (\<lparr>clients = Map_delete (clients s) ws,
                rooms = Map_delete (Map_set (rooms s) (roomId info) []) (roomId info)\<rparr>,
               [Log (RoomRemoved (roomId info))], Returned))
       \<and> list_all2 (\<lambda>c u. \<exists>i. Map_get (clients s) c = Some i \<and> u = (userId i, username i))
            (Set_delete ms ws) users
       \<and> fst (snd (on_close s rs ws)) = fst (snd (handleLeave s rs ws)) @ [Log ClientDisconnected]
       \<and> on_message s rs ws Leave uid = (fst (handleLeave s rs ws), fst (snd (handleLeave s rs ws)))"
proof -
  have dist: "distinct (Set_delete ms ws)"
    using assms(3) by (simp add: Set_delete_def)
  have others: "Set_delete ms ws \<noteq> [] \<longrightarrow>
      handleLeave s rs ws =
        (\<lparr>clients = Map_delete (clients s) ws,
          rooms = Map_set (rooms s) (roomId info) (Set_delete ms ws)\<rparr>,
         map (\<lambda>c. Send c (UserLeft (userId info) (username info)))
             (filter (\<lambda>c. rs c = OPEN) (Set_delete ms ws))
         @ map (\<lambda>c. Send c (UserList users)) (filter (\<lambda>c. rs c = OPEN) (Set_delete ms ws))
         @ [Log (LeftRoom (username info) (roomId info))],
         Returned)"
    using handleLeave_others [OF assms(1,2,4)] by blast
  have each: "Set_delete ms ws \<noteq> [] \<longrightarrow>
      (\<forall>c \<in> set (Set_delete ms ws).
          sent_to c (fst (snd (handleLeave s rs ws))) =
            (if rs c = OPEN then [UserLeft (userId info) (username info), UserList users] else []))"
    using others dist by (simp add: sent_to_append sent_to_broadcast sent_to_Log)
  have last: "Set_delete ms ws = [] \<longrightarrow>
      handleLeave s rs ws =
        (\<lparr>clients = Map_delete (clients s) ws,
          rooms = Map_delete (Map_set (rooms s) (roomId info) []) (roomId info)\<rparr>,
         [Log (RoomRemoved (roomId info))], Returned)"
    using handleLeave_last [OF assms(1,2)] by blast
  have roster: "list_all2 (\<lambda>c u. \<exists>i. Map_get (clients s) c = Some i \<and> u = (userId i, username i))
      (Set_delete ms ws) users"
    using assms(4) by (simp add: users_of_list_all2)
  have returned: "snd (snd (handleLeave s rs ws)) = Returned"
    using others last by (cases "Set_delete ms ws = []") simp_all
  have close: "fst (snd (on_close s rs ws)) = fst (snd (handleLeave s rs ws)) @ [Log ClientDisconnected]"
    using returned by (cases "handleLeave s rs ws" rule: prod_cases3) (simp add: on_close_def)
  have msg: "on_message s rs ws Leave uid = (fst (handleLeave s rs ws), fst (snd (handleLeave s rs ws)))"
    using returned by (cases "handleLeave s rs ws" rule: prod_cases3) (simp add: on_message_def catch_def)
  from others each last roster close msg show ?thesis by blast
qed

theorem leave_notifies_open_members_witness:
  "Map_get (clients twins) 2 = Some \<lparr>userId = ''x'', username = ''carol'', roomId = ''r''\<rparr>
   \<and> Map_get (rooms twins) ''r'' = Some [0, 2, 3]
   \<and> distinct [0, 2, 3 :: nat]
   \<and> users_of (clients twins) (Set_delete [0, 2, 3] 2) = Some [(''a'', ''alice''), (''x'', ''dave'')]
   \<and> handleLeave twins (all_open(3 := CLOSING)) 2 =
       (\<lparr>clients = Map_delete (clients twins) 2, rooms = [(''r'', [0, 3]), (''q'', [1])]\<rparr>,
        [Send 0 (UserLeft ''x'' ''carol''),
         Send 0 (UserList [(''a'', ''alice''), (''x'', ''dave'')]),
         Log (LeftRoom ''carol'' ''r'')],
        Returned)
   \<and> sent_to 0 (fst (snd (handleLeave twins (all_open(3 := CLOSING)) 2))) =
       [UserLeft ''x'' ''carol'', UserList [(''a'', ''alice''), (''x'', ''dave'')]]
   \<and> sent_to 3 (fst (snd (handleLeave twins (all_open(3 := CLOSING)) 2))) = []"
proof -
  have bound: "Map_get (clients twins) 2 = Some \<lparr>userId = ''x'', username = ''carol'', roomId = ''r''\<rparr>"
    by (simp add: twins_def Map_get_def)
  have room: "Map_get (rooms twins) (roomId \<lparr>userId = ''x'', username = ''carol'', roomId = ''r''\<rparr>)
      = Some [0, 2, 3]"
    by (simp add: twins_def Map_get_def)
  have dist: "distinct [0, 2, 3 :: nat]"
    by simp
  have roster: "users_of (clients twins) (Set_delete [0, 2, 3] 2) = Some [(''a'', ''alice''), (''x'', ''dave'')]"
    by (simp add: twins_def Map_get_def Set_delete_def)
  have rest: "Set_delete [0, 2, 3 :: nat] 2 = [0, 3]"
    by (simp add: Set_delete_def)
  have directory: "Map_set (rooms twins) ''r'' [0, 3] = [(''r'', [0, 3]), (''q'', [1])]"
    by (simp add: twins_def)
  have hl: "handleLeave twins (all_open(3 := CLOSING)) 2 =
       (\<lparr>clients = Map_delete (clients twins) 2, rooms = [(''r'', [0, 3]), (''q'', [1])]\<rparr>,
        [Send 0 (UserLeft ''x'' ''carol''),
         Send 0 (UserList [(''a'', ''alice''), (''x'', ''dave'')]),
         Log (LeftRoom ''carol'' ''r'')],
        Returned)"
    using leave_notifies_open_members [OF bound room dist roster, of "all_open(3 := CLOSING)" "''''"]
    by (simp add: rest all_open_def directory)
  have to0: "sent_to 0 (fst (snd (handleLeave twins (all_open(3 := CLOSING)) 2))) =
       [UserLeft ''x'' ''carol'', UserList [(''a'', ''alice''), (''x'', ''dave'')]]"
    by (simp add: hl sent_to_def)
  have to3: "sent_to 3 (fst (snd (handleLeave twins (all_open(3 := CLOSING)) 2))) = []"
    by (simp add: hl sent_to_def)
  from room have room': "Map_get (rooms twins) ''r'' = Some [0, 2, 3]"
    by simp
  from bound room' dist roster hl to0 to3 show ?thesis
    by blast
qed

subsection \<open>Joining a room\<close>

lemma handleJoin_unbound:
  assumes "Map_get (clients s) ws = None"
    and "users_of (clients s) (members s rid) = Some existing"
  shows "handleJoin s rs ws uname rid uid =
     (\<lparr>clients = Map_set (clients s) ws \<lparr>userId = uid, username = uname, roomId = rid\<rparr>,
       rooms = Map_set (rooms s) rid (members s rid @ [ws])\<rparr>,
      Send ws (RoomJoined rid uid existing)
      # map (\<lambda>c. Send c (UserJoined uid uname)) (filter (\<lambda>c. rs c = OPEN) (members s rid))
      @ map (\<lambda>c. Send c (UserList (existing @ [(uid, uname)])))
          (filter (\<lambda>c. rs c = OPEN) (members s rid @ [ws]))
      @ [Log (JoinedRoom uname rid)],
      Returned)"
proof -
  let ?info = "\<lparr>userId = uid, username = uname, roomId = rid\<rparr>"
  let ?cl = "Map_set (clients s) ws ?info"
  let ?ms = "members s rid"
  let ?s' = "\<lparr>clients = ?cl, rooms = Map_set (rooms s) rid (?ms @ [ws])\<rparr>"
  have fresh: "ws \<notin> set ?ms"
    using users_of_bound [OF assms(2)] assms(1) by blast
  have add: "Set_add ?ms ws = ?ms @ [ws]"
    using fresh by (simp add: Set_add_def)
  have present: "(case Map_get (rooms s) rid of None \<Rightarrow> [] | Some ms \<Rightarrow> ms) = ?ms"
    by (simp add: members_def)
  have room': "Map_get (rooms ?s') rid = Some (?ms @ [ws])"
    by (simp add: Map_get_Map_set)
  have members': "members ?s' rid = ?ms @ [ws]"
    using room' by (simp add: members_def)
  have others: "filter (\<lambda>client. client \<noteq> ws) (?ms @ [ws]) = ?ms"
    using fresh by (auto simp: filter_id_conv)
  have "users_of ?cl ?ms = users_of (clients s) ?ms"
  proof (rule users_of_cong)
    fix c assume "c \<in> set ?ms"
    with fresh have "c \<noteq> ws" by blast
    then show "Map_get ?cl c = Map_get (clients s) c" by (simp add: Map_get_Map_set)
  qed
  with assms(2) have roster: "users_of ?cl ?ms = Some existing"
    by simp
  have roster': "users_of ?cl (?ms @ [ws]) = Some (existing @ [(uid, uname)])"
    using users_of_snoc [OF roster, of ws ?info] by (simp add: Map_get_Map_set)
  have joined: "broadcastToRoom ?s' rs rid (UserJoined uid uname) (Some ws) =
      map (\<lambda>c. Send c (UserJoined uid uname)) (filter (\<lambda>c. rs c = OPEN) ?ms)"
    using room' fresh by (rule broadcastToRoom_others)
  have upd: "updateUserList ?s' rs rid =
      Some (map (\<lambda>c. Send c (UserList (existing @ [(uid, uname)])))
              (filter (\<lambda>c. rs c = OPEN) (?ms @ [ws])))"
    using room' roster' broadcastToRoom_all [OF room'] by (simp add: updateUserList_def)
  have "handleJoin s rs ws uname rid uid =
      (case users_of ?cl (filter (\<lambda>client. client \<noteq> ws) (members ?s' rid)) of
         None \<Rightarrow> (?s', [], Threw)
       | Some existingUsers \<Rightarrow>
           (case updateUserList ?s' rs rid of
              None \<Rightarrow> (?s', [Send ws (RoomJoined rid uid existingUsers)]
                          @ broadcastToRoom ?s' rs rid (UserJoined uid uname) (Some ws), Threw)
            | Some refreshed \<Rightarrow>
                (?s', [Send ws (RoomJoined rid uid existingUsers)]
                      @ broadcastToRoom ?s' rs rid (UserJoined uid uname) (Some ws)
                      @ refreshed @ [Log (JoinedRoom uname rid)], Returned)))"
    unfolding handleJoin_def Let_def present add ..
  also have "\<dots> = (?s', Send ws (RoomJoined rid uid existing)
      # map (\<lambda>c. Send c (UserJoined uid uname)) (filter (\<lambda>c. rs c = OPEN) ?ms)
      @ map (\<lambda>c. Send c (UserList (existing @ [(uid, uname)])))
          (filter (\<lambda>c. rs c = OPEN) (?ms @ [ws]))
      @ [Log (JoinedRoom uname rid)], Returned)"
    unfolding members' others roster upd joined by simp
  finally show ?thesis .
qed

text \<open>
  Claim C6, as stated, fails: an existing member whose transport is not open is sent
  neither \<^verbatim>\<open>user-joined\<close> nor \<^verbatim>\<open>user-list\<close>. Connection 0 is in room \<^verbatim>\<open>r1\<close> with its
  transport closing; connection 1, which has no session, joins \<^verbatim>\<open>r1\<close>.
\<close>

theorem join_skips_closing_member:
  "members alice_alone ''r1'' = [0]
   \<and> Map_get (clients alice_alone) 1 = None
   \<and> on_message alice_alone (all_open(0 := CLOSING)) 1 (Join ''bob'' ''r1'') ''b1'' =
       (pair,
        [Send 1 (RoomJoined ''r1'' ''b1'' [(''a1'', ''alice'')]),
         Send 1 (UserList [(''a1'', ''alice''), (''b1'', ''bob'')]),
         Log (JoinedRoom ''bob'' ''r1'')])"
  by (simp add: handler_defs alice_alone_def pair_def all_open_def)

text \<open>
  Claim C6, amended. A connection without a session sends \<^verbatim>\<open>join\<close> for a room all of
  whose members have sessions, \<open>existing\<close> being their roster. The handler binds the
  session with the generated userId, appends the connection to the member set (creating
  the room when it is absent), and then, in this order: sends the connection
  \<^verbatim>\<open>room-joined\<close> with the roomId, the userId and \<open>existing\<close> (the empty list for the first
  member of a room); sends \<^verbatim>\<open>user-joined\<close> to every earlier member whose transport is
  open; sends \<^verbatim>\<open>user-list\<close>, with the new member last, to every member whose transport
  is open, the new one included. An earlier member whose transport is not open is sent
  nothing.
\<close>

theorem join_reply_then_broadcasts:
  assumes "Map_get (clients s) ws = None"
    and "distinct (members s rid)"
    and "users_of (clients s) (members s rid) = Some existing"
  shows "handleJoin s rs ws uname rid uid =
       (\<lparr>clients = Map_set (clients s) ws \<lparr>userId = uid, username = uname, roomId = rid\<rparr>,
         rooms = Map_set (rooms s) rid (members s rid @ [ws])\<rparr>,
        Send ws (RoomJoined rid uid existing)
        # map (\<lambda>c. Send c (UserJoined uid uname)) (filter (\<lambda>c. rs c = OPEN) (members s rid))
        @ map (\<lambda>c. Send c (UserList (existing @ [(uid, uname)])))
            (filter (\<lambda>c. rs c = OPEN) (members s rid @ [ws]))
        @ [Log (JoinedRoom uname rid)],
        Returned)
     \<and> sent_to ws (fst (snd (handleJoin s rs ws uname rid uid))) =
         RoomJoined rid uid existing
         # (if rs ws = OPEN then [UserList (existing @ [(uid, uname)])] else [])
     \<and> (\<forall>c \<in> set (members s rid).
           sent_to c (fst (snd (handleJoin s rs ws uname rid uid))) =
             (if rs c = OPEN
              then [UserJoined uid uname, UserList (existing @ [(uid, uname)])] else []))
     \<and> (members s rid = [] \<longrightarrow> existing = [])
     \<and> list_all2 (\<lambda>c u. \<exists>i. Map_get (clients s) c = Some i \<and> u = (userId i, username i))
          (members s rid) existing
     \<and> on_message s rs ws (Join uname rid) uid =
         (fst (handleJoin s rs ws uname rid uid), fst (snd (handleJoin s rs ws uname rid uid)))"
proof -
  note run = handleJoin_unbound [OF assms(1,3), of rs uname uid]
  have fresh: "ws \<notin> set (members s rid)"
    using users_of_bound [OF assms(3)] assms(1) by blast
  have dist: "distinct (members s rid @ [ws])"
    using assms(2) fresh by simp
  have own: "sent_to ws (fst (snd (handleJoin s rs ws uname rid uid))) =
      RoomJoined rid uid existing
      # (if rs ws = OPEN then [UserList (existing @ [(uid, uname)])] else [])"
    unfolding run using fresh
    by (simp add: sent_to_Cons_Send sent_to_append sent_to_Log sent_to_Nil
        sent_to_broadcast [OF assms(2)] sent_to_broadcast [OF dist])
  have each: "\<forall>c \<in> set (members s rid).
      sent_to c (fst (snd (handleJoin s rs ws uname rid uid))) =
        (if rs c = OPEN then [UserJoined uid uname, UserList (existing @ [(uid, uname)])] else [])"
    unfolding run using fresh
    by (auto simp: sent_to_Cons_Send sent_to_append sent_to_Log sent_to_Nil
        sent_to_broadcast [OF assms(2)] sent_to_broadcast [OF dist])
  have first: "members s rid = [] \<longrightarrow> existing = []"
    using assms(3) by auto
  have roster: "list_all2 (\<lambda>c u. \<exists>i. Map_get (clients s) c = Some i \<and> u = (userId i, username i))
      (members s rid) existing"
    using assms(3) by (simp add: users_of_list_all2)
  have msg: "on_message s rs ws (Join uname rid) uid =
      (fst (handleJoin s rs ws uname rid uid), fst (snd (handleJoin s rs ws uname rid uid)))"
    by (simp add: on_message_def catch_def run)
  from run own each first roster msg show ?thesis by blast
qed

theorem join_reply_then_broadcasts_witness:
  "Map_get (clients pair) 2 = None
   \<and> distinct (members pair ''r1'')
   \<and> users_of (clients pair) (members pair ''r1'') = Some [(''a1'', ''alice''), (''b1'', ''bob'')]
   \<and> on_message pair (all_open(1 := CLOSING)) 2 (Join ''carol'' ''r1'') ''c1'' =
       (\<lparr>clients = clients pair @ [(2, \<lparr>userId = ''c1'', username = ''carol'', roomId = ''r1''\<rparr>)],
         rooms = [(''r1'', [0, 1, 2])]\<rparr>,
        [Send 2 (RoomJoined ''r1'' ''c1'' [(''a1'', ''alice''), (''b1'', ''bob'')]),
         Send 0 (UserJoined ''c1'' ''carol''),
         Send 0 (UserList [(''a1'', ''alice''), (''b1'', ''bob''), (''c1'', ''carol'')]),
         Send 2 (UserList [(''a1'', ''alice''), (''b1'', ''bob''), (''c1'', ''carol'')]),
         Log (JoinedRoom ''carol'' ''r1'')])
   \<and> Map_get (clients initial) 0 = None
   \<and> users_of (clients initial) (members initial ''lobby'') = Some []
   \<and> sent_to 0 (fst (snd (handleJoin initial all_open 0 ''alice'' ''lobby'' ''u1''))) =
       [RoomJoined ''lobby'' ''u1'' [], UserList [(''u1'', ''alice'')]]"
proof -
  have unbound: "Map_get (clients pair) 2 = None"
    by (simp add: pair_def Map_get_def)
  have ms: "members pair ''r1'' = [0, 1]"
    by (simp add: pair_def members_def Map_get_def)
  have dist: "distinct (members pair ''r1'')"
    by (simp add: ms)
  have roster: "users_of (clients pair) (members pair ''r1'') = Some [(''a1'', ''alice''), (''b1'', ''bob'')]"
    by (simp add: ms) (simp add: pair_def Map_get_def)
  have registry: "clients pair =
      [(0, \<lparr>userId = ''a1'', username = ''alice'', roomId = ''r1''\<rparr>),
       (1, \<lparr>userId = ''b1'', username = ''bob'', roomId = ''r1''\<rparr>)]"
    by (simp add: pair_def)
  have directory: "rooms pair = [(''r1'', [0, 1])]"
    by (simp add: pair_def)
  have joined: "on_message pair (all_open(1 := CLOSING)) 2 (Join ''carol'' ''r1'') ''c1'' =
       (\<lparr>clients = clients pair @ [(2, \<lparr>userId = ''c1'', username = ''carol'', roomId = ''r1''\<rparr>)],
         rooms = [(''r1'', [0, 1, 2])]\<rparr>,
        [Send 2 (RoomJoined ''r1'' ''c1'' [(''a1'', ''alice''), (''b1'', ''bob'')]),
         Send 0 (UserJoined ''c1'' ''carol''),
         Send 0 (UserList [(''a1'', ''alice''), (''b1'', ''bob''), (''c1'', ''carol'')]),
         Send 2 (UserList [(''a1'', ''alice''), (''b1'', ''bob''), (''c1'', ''carol'')]),
         Log (JoinedRoom ''carol'' ''r1'')])"
    using join_reply_then_broadcasts [OF unbound dist roster, of "all_open(1 := CLOSING)" "''carol''" "''c1''"]
    by (simp add: ms registry directory all_open_def)
  have unbound0: "Map_get (clients initial) 0 = None"
    by (simp add: initial_def Map_get_def)
  have ms0: "members initial ''lobby'' = []"
    by (simp add: initial_def members_def Map_get_def)
  have dist0: "distinct (members initial ''lobby'')"
    by (simp add: ms0)
  have roster0: "users_of (clients initial) (members initial ''lobby'') = Some []"
    by (simp add: ms0)
  have first: "sent_to 0 (fst (snd (handleJoin initial all_open 0 ''alice'' ''lobby'' ''u1''))) =
       [RoomJoined ''lobby'' ''u1'' [], UserList [(''u1'', ''alice'')]]"
    using join_reply_then_broadcasts
      [OF unbound0 dist0 roster0, of all_open "''alice''" "''u1''", THEN conjunct2, THEN conjunct1]
    by (simp add: all_open_def)
  from unbound dist roster joined unbound0 roster0 first show ?thesis
    by blast
qed

subsection \<open>Leaving twice\<close>

lemma handleLeave_unbound:
  "Map_get (clients s) ws = None \<Longrightarrow> handleLeave s rs ws = (s, [], Returned)"
  by (simp add: handleLeave_def)

lemma handleLeave_Returned_unbinds:
  "handleLeave s rs ws = (s', out, Returned) \<Longrightarrow> Map_get (clients s') ws = None"
  by (auto simp: handleLeave_def Let_def Map_get_Map_delete split: option.splits if_splits)

lemma handleLeave_twice:
  "handleLeave s rs ws = (s', out, Returned) \<Longrightarrow> handleLeave s' rs' ws = (s', [], Returned)"
  by (rule handleLeave_unbound) (rule handleLeave_Returned_unbinds)

lemma close_after_leave:
  "handleLeave s rs ws = (s', out, Returned) \<Longrightarrow>
     on_close s' rs' ws = (s', [Log ClientDisconnected], Returned)"
  by (simp add: on_close_def handleLeave_twice)

lemma haunted_run:
  "fst (run initial [(all_open, Message 0 (Join ''alice'' ''r1'') ''a1''),
                     (all_open, Message 1 (Join ''bob'' ''r1'') ''b1''),
                     (all_open, Message 0 (Join ''alice'' ''r2'') ''a2''),
                     (all_open, Message 0 Leave ''''),
                     (all_open, Message 1 Leave '''')]) = haunted"
  by (simp add: handler_defs haunted_def all_open_def)

text \<open>
  Claim C7 fails on the code in the state \<open>haunted\<close>, which the five messages of
  \<open>haunted_run\<close> reach; the last of them is a \<^verbatim>\<open>leave\<close> of connection 1. A second \<^verbatim>\<open>leave\<close>
  of connection 1 finds its session still in the registry, sends \<^verbatim>\<open>user-left\<close> to
  connection 0 once more and raises again in \<^verbatim>\<open>updateUserList\<close>.
\<close>

theorem second_leave_repeats_broadcast:
  "on_message haunted all_open 1 Leave '''' =
     (haunted, [Send 0 (UserLeft ''b1'' ''bob''), Log ErrorHandlingMessage])"
  by (simp add: handler_defs haunted_def all_open_def)

subsection \<open>Transport state of a recipient\<close>

lemma broadcastToRoom_open_only:
  "Send c m \<in> set (broadcastToRoom s rs rid msg excludeWs) \<Longrightarrow>
     rs c = OPEN \<and> m = msg \<and> c \<in> set (members s rid) \<and> Some c \<noteq> excludeWs"
  by (auto simp: broadcastToRoom_def members_def split: option.splits)

text \<open>
  Claim C8 fails on the code for the direct delivery: \<^verbatim>\<open>handleSignal\<close> calls \<^verbatim>\<open>send\<close> on
  the target without reading its \<^verbatim>\<open>readyState\<close>. With the transport of connection 1
  closing, a signal addressed to it is sent to it, while a broadcast to the same room
  skips it.
\<close>

theorem signal_sent_to_closing_target:
  "on_message pair (all_open(1 := CLOSING)) 0 (Signal ''b1'' ''offer'') '''' =
     (pair, [Send 1 (SignalTo ''a1'' ''offer'')])
   \<and> broadcastToRoom pair (all_open(1 := CLOSING)) ''r1'' (UserJoined ''c1'' ''carol'') None =
     [Send 0 (UserJoined ''c1'' ''carol'')]"
  by (simp add: handler_defs pair_def all_open_def)

subsection \<open>Malformed payloads\<close>

text \<open>
  Claim C9. A payload that is not JSON, or that is the JSON value \<^verbatim>\<open>null\<close>, raises inside
  the \<^verbatim>\<open>try\<close> of the message listener: the listener logs the error and does nothing
  else, so the registry and the directory are as before and nothing is sent. The events
  that follow are handled from the unchanged state; a \<^verbatim>\<open>signal\<close> that follows from the
  same connection is routed as if the malformed payload had not arrived.
\<close>

theorem malformed_message_discarded:
  "on_message s rs ws SyntaxError uid = (s, [Log ErrorHandlingMessage])
   \<and> on_message s rs ws Null uid = (s, [Log ErrorHandlingMessage])
   \<and> run s ((rs, Message ws SyntaxError uid) # evs) =
       (case run s evs of (s', out, c) \<Rightarrow> (s', Log ErrorHandlingMessage # out, c))
   \<and> run s ((rs, Message ws Null uid) # evs) =
       (case run s evs of (s', out, c) \<Rightarrow> (s', Log ErrorHandlingMessage # out, c))
   \<and> on_message (fst (on_message s rs ws SyntaxError uid)) rs' ws (Signal targetId signal) uid' =
       (s, handleSignal s ws targetId signal)"
  by (simp add: on_message_def step_def split: prod.splits)

theorem malformed_message_discarded_witness:
  "run twins [(all_open, Message 0 SyntaxError ''''), (all_open, Message 0 (Signal ''x'' ''offer'') '''')] =
     (twins, [Log ErrorHandlingMessage, Send 2 (SignalTo ''a'' ''offer'')], Returned)"
proof -
  have "run twins [(all_open, Message 0 (Signal ''x'' ''offer'') '''')] =
      (twins, [Send 2 (SignalTo ''a'' ''offer'')], Returned)"
    by (simp add: twins_def step_def on_message_def handleSignal_def Map_get_def)
  then show ?thesis
    using malformed_message_discarded
      [of twins all_open 0 "''''" "[(all_open, Message 0 (Signal ''x'' ''offer'') '''')]"]
    by simp
qed

subsection \<open>Runs without a second join\<close>

lemma distinct_Set_add: "distinct xs \<Longrightarrow> distinct (Set_add xs x)"
  by (simp add: Set_add_def)

lemma distinct_Set_delete: "distinct xs \<Longrightarrow> distinct (Set_delete xs x)"
  by (simp add: Set_delete_def)

lemma consistent_members:
  assumes "consistent s" and "c \<in> set (members s rid)"
  shows "\<exists>info. Map_get (clients s) c = Some info \<and> roomId info = rid"
proof -
  from assms(2) obtain ms where "Map_get (rooms s) rid = Some ms" and "c \<in> set ms"
    by (cases "Map_get (rooms s) rid") (auto simp: members_def)
  with assms(1) show ?thesis
    unfolding consistent_def by blast
qed

lemma consistent_distinct:
  assumes "consistent s"
  shows "distinct (members s rid)"
proof (cases "Map_get (rooms s) rid")
  case None
  then show ?thesis by (simp add: members_def)
next
  case (Some ms)
  with assms have "distinct ms"
    unfolding consistent_def by blast
  with Some show ?thesis by (simp add: members_def)
qed

lemma consistent_roster:
  "consistent s \<Longrightarrow> \<exists>users. users_of (clients s) (members s rid) = Some users"
  by (rule users_of_total) (auto dest: consistent_members)

lemma consistent_handleJoin:
  assumes "consistent s" and "Map_get (clients s) ws = None"
  shows "consistent (fst (handleJoin s rs ws uname rid uid))"
  unfolding consistent_def
proof (intro allI impI)
  fix rid' ms
  let ?s' = "fst (handleJoin s rs ws uname rid uid)"
  assume room: "Map_get (rooms ?s') rid' = Some ms"
  have unlisted: "ws \<notin> set (members s r)" for r
    using consistent_members [OF assms(1)] assms(2) by fastforce
  show "distinct ms \<and> (\<forall>c \<in> set ms. \<exists>info. Map_get (clients ?s') c = Some info \<and> roomId info = rid')"
  proof (cases "rid' = rid")
    case True
    with room have ms: "ms = Set_add (members s rid) ws"
      by (simp add: rooms_handleJoin Map_get_Map_set)
    have "distinct ms"
      unfolding ms using consistent_distinct [OF assms(1)] by (rule distinct_Set_add)
    moreover have "\<exists>info. Map_get (clients ?s') c = Some info \<and> roomId info = rid'"
      if "c \<in> set ms" for c
    proof (cases "c = ws")
      case True
      then show ?thesis
        using \<open>rid' = rid\<close> by (simp add: clients_handleJoin Map_get_Map_set)
    next
      case False
      with that have "c \<in> set (members s rid)"
        by (simp add: ms set_Set_add)
      then show ?thesis
        using consistent_members [OF assms(1)] False \<open>rid' = rid\<close>
        by (simp add: clients_handleJoin Map_get_Map_set)
    qed
    ultimately show ?thesis by blast
  next
    case False
    with room have old: "Map_get (rooms s) rid' = Some ms"
      by (simp add: rooms_handleJoin Map_get_Map_set)
    then have ms: "members s rid' = ms"
      by (simp add: members_def)
    have "distinct ms"
      using consistent_distinct [OF assms(1), of rid'] by (simp add: ms)
    moreover have "\<exists>info. Map_get (clients ?s') c = Some info \<and> roomId info = rid'"
      if "c \<in> set ms" for c
    proof -
      from that have "c \<in> set (members s rid')" by (simp add: ms)
      moreover from this have "c \<noteq> ws" using unlisted by blast
      ultimately show ?thesis
        using consistent_members [OF assms(1)] by (simp add: clients_handleJoin Map_get_Map_set)
    qed
    ultimately show ?thesis by blast
  qed
qed

lemma clients_handleLeave:
  "clients (fst (handleLeave s rs ws)) = clients s
   \<or> clients (fst (handleLeave s rs ws)) = Map_delete (clients s) ws"
  by (simp add: handleLeave_def Let_def split: option.splits)

lemma handleLeave_consistent_Returned:
  assumes "consistent s"
  shows "snd (snd (handleLeave s rs ws)) = Returned"
proof (cases "Map_get (clients s) ws")
  case None
  then show ?thesis by (simp add: handleLeave_def)
next
  case (Some info)
  show ?thesis
  proof (cases "Map_get (rooms s) (roomId info)")
    case None
    with Some show ?thesis by (simp add: handleLeave_def)
  next
    case room: (Some ms)
    have "\<exists>users. users_of (clients s) (Set_delete ms ws) = Some users"
    proof (rule users_of_total)
      fix c assume "c \<in> set (Set_delete ms ws)"
      then have "c \<in> set (members s (roomId info))"
        using room by (simp add: members_def set_Set_delete)
      then show "Map_get (clients s) c \<noteq> None"
        using consistent_members [OF assms] by fastforce
    qed
    then obtain users where "users_of (clients s) (Set_delete ms ws) = Some users" ..
    then show ?thesis
      using handleLeave_others [OF Some room] handleLeave_last [OF Some room]
      by (cases "Set_delete ms ws = []") simp_all
  qed
qed

lemma consistent_handleLeave:
  assumes "consistent s"
  shows "consistent (fst (handleLeave s rs ws))"
proof (cases "Map_get (clients s) ws")
  case None
  with assms show ?thesis by (simp add: handleLeave_def)
next
  case (Some info)
  let ?s' = "fst (handleLeave s rs ws)"
  have gone: "clients ?s' = Map_delete (clients s) ws"
    using handleLeave_consistent_Returned [OF assms, of rs ws] Some
    by (auto simp: handleLeave_def Let_def split: option.splits if_splits)
  show ?thesis
    unfolding consistent_def
  proof (intro allI impI)
    fix rid' ms'
    assume room': "Map_get (rooms ?s') rid' = Some ms'"
    have "\<exists>ms. Map_get (rooms s) rid' = Some ms \<and> distinct ms \<and> set ms' \<subseteq> set ms
        \<and> (rid' = roomId info \<longrightarrow> ws \<notin> set ms')"
      using room' Some assms
      by (auto simp: rooms_handleLeave Map_get_Map_set Map_get_Map_delete set_Set_delete
          consistent_def distinct_Set_delete split: option.splits if_splits)
    then obtain ms where old: "Map_get (rooms s) rid' = Some ms" "distinct ms" "set ms' \<subseteq> set ms"
      "rid' = roomId info \<longrightarrow> ws \<notin> set ms'"
      by blast
    have "distinct ms'"
      using room' Some assms
      by (auto simp: rooms_handleLeave Map_get_Map_set Map_get_Map_delete
          consistent_def distinct_Set_delete split: option.splits if_splits)
    moreover have "\<exists>i. Map_get (clients ?s') c = Some i \<and> roomId i = rid'" if "c \<in> set ms'" for c
    proof -
      from that old have "c \<in> set (members s rid')"
        by (auto simp: members_def)
      then obtain i where i: "Map_get (clients s) c = Some i" "roomId i = rid'"
        using consistent_members [OF assms] by blast
      have "c \<noteq> ws"
        using i Some old(4) that by auto
      then show ?thesis
        using i by (simp add: gone Map_get_Map_delete)
    qed
    ultimately show "distinct ms' \<and> (\<forall>c \<in> set ms'. \<exists>i. Map_get (clients ?s') c = Some i \<and> roomId i = rid')"
      by blast
  qed
qed

lemma consistent_step:
  assumes "consistent s" and "first_join s e"
  shows "consistent (fst (step rs s e))"
proof (cases e)
  case (Connection ws)
  with assms show ?thesis by (simp add: step_def on_connection_def)
next
  case (Message ws d uid)
  with assms show ?thesis
    by (cases d)
      (simp_all add: step_def on_message_def split_beta fst_catch first_join_def
        consistent_handleJoin consistent_handleLeave)
next
  case (Close ws)
  with assms show ?thesis
    by (simp add: step_def fst_on_close consistent_handleLeave)
next
  case (Error ws)
  with assms show ?thesis by (simp add: step_def on_error_def)
qed

lemma regular_consistent: "regular s \<Longrightarrow> consistent s"
proof (induction rule: regular.induct)
  case regular_initial
  show ?case by (simp add: consistent_def initial_def Map_get_def)
next
  case (regular_step s e rs s' out c)
  then show ?case using consistent_step [of s e rs] by simp
qed

lemma regular_reachable: "regular s \<Longrightarrow> reachable s"
  by (induction rule: regular.induct) (auto intro: reachable.intros)

text \<open>
  In a run without a second join no listener ends by raising: every roster that
  \<^verbatim>\<open>handleLeave\<close> builds is built from members that have sessions.
\<close>

lemma regular_step_Returned:
  assumes "regular s" and "first_join s e"
  shows "snd (snd (step rs s e)) = Returned"
proof (cases e)
  case (Close ws)
  then show ?thesis
    using handleLeave_consistent_Returned [OF regular_consistent [OF assms(1)], of rs ws]
    by (cases "handleLeave s rs ws" rule: prod_cases3) (simp add: step_def on_close_def)
qed (simp_all add: step_def split_beta)

text \<open>
  So the conditions on the state under which the effects of a join and of a leave are
  characterised hold in every state of such a run.
\<close>

lemma regular_join_conditions:
  assumes "regular s"
  shows "distinct (members s rid) \<and> (\<exists>existing. users_of (clients s) (members s rid) = Some existing)"
  using consistent_distinct [OF regular_consistent [OF assms]]
    consistent_roster [OF regular_consistent [OF assms]]
  by blast

lemma regular_leave_conditions:
  assumes "regular s" and "Map_get (rooms s) rid = Some ms"
  shows "distinct ms \<and> (\<exists>users. users_of (clients s) (Set_delete ms ws) = Some users)"
proof -
  have ms: "members s rid = ms"
    using assms(2) by (simp add: members_def)
  have "distinct ms"
    using consistent_distinct [OF regular_consistent [OF assms(1)], of rid] by (simp add: ms)
  moreover have "\<exists>users. users_of (clients s) (Set_delete ms ws) = Some users"
  proof (rule users_of_total)
    fix c assume "c \<in> set (Set_delete ms ws)"
    then have "c \<in> set (members s rid)"
      by (simp add: ms set_Set_delete)
    then show "Map_get (clients s) c \<noteq> None"
      using consistent_members [OF regular_consistent [OF assms(1)]] by fastforce
  qed
  ultimately show ?thesis by blast
qed

subsection \<open>The example states are reached\<close>

lemma run_reachable: "reachable s \<Longrightarrow> reachable (fst (run s evs))"
proof (induction evs arbitrary: s)
  case Nil
  then show ?case by simp
next
  case (Cons ev evs)
  obtain rs e where ev: "ev = (rs, e)" by (cases ev)
  obtain s' out c where st: "step rs s e = (s', out, c)" by (cases "step rs s e" rule: prod_cases3)
  have next_reachable: "reachable s'"
    using Cons.prems st by (rule reachable_step)
  show ?case
  proof (cases c)
    case Returned
    then show ?thesis
      using Cons.IH [OF next_reachable] by (simp add: ev st split_beta)
  next
    case Threw
    then show ?thesis
      using next_reachable by (simp add: ev st)
  qed
qed

lemma regular_alice_alone: "regular alice_alone"
proof -
  have "first_join initial (Message 0 (Join ''alice'' ''r1'') ''a1'')"
    by (simp add: first_join_def initial_def Map_get_def)
  moreover have "step all_open initial (Message 0 (Join ''alice'' ''r1'') ''a1'') =
     (alice_alone, [Send 0 (RoomJoined ''r1'' ''a1'' []), Send 0 (UserList [(''a1'', ''alice'')]),
        Log (JoinedRoom ''alice'' ''r1'')], Returned)"
    by (simp add: handler_defs all_open_def alice_alone_def)
  ultimately show ?thesis
    using regular_initial by (rule regular_step [rotated])
qed

lemma regular_pair: "regular pair"
proof -
  have "first_join alice_alone (Message 1 (Join ''bob'' ''r1'') ''b1'')"
    by (simp add: first_join_def alice_alone_def Map_get_def)
  moreover have "step all_open alice_alone (Message 1 (Join ''bob'' ''r1'') ''b1'') =
     (pair, [Send 1 (RoomJoined ''r1'' ''b1'' [(''a1'', ''alice'')]), Send 0 (UserJoined ''b1'' ''bob''),
        Send 0 (UserList [(''a1'', ''alice''), (''b1'', ''bob'')]),
        Send 1 (UserList [(''a1'', ''alice''), (''b1'', ''bob'')]),
        Log (JoinedRoom ''bob'' ''r1'')], Returned)"
    by (simp add: handler_defs all_open_def alice_alone_def pair_def)
  ultimately show ?thesis
    using regular_alice_alone by (rule regular_step [rotated])
qed

lemma reachable_twins: "reachable twins"
proof -
  have "reachable (fst (run initial
      [(all_open, Message 0 (Join ''alice'' ''r'') ''a''),
       (all_open, Message 1 (Join ''bob'' ''q'') ''x''),
       (all_open, Message 2 (Join ''carol'' ''r'') ''x''),
       (all_open, Message 3 (Join ''dave'' ''r'') ''x'')]))"
    using reachable_initial by (rule run_reachable)
  then show ?thesis
    unfolding twins_run fst_conv .
qed

lemma reachable_haunted: "reachable haunted"
proof -
  have "reachable (fst (run initial
      [(all_open, Message 0 (Join ''alice'' ''r1'') ''a1''),
       (all_open, Message 1 (Join ''bob'' ''r1'') ''b1''),
       (all_open, Message 0 (Join ''alice'' ''r2'') ''a2''),
       (all_open, Message 0 Leave ''''),
       (all_open, Message 1 Leave '''')]))"
    using reachable_initial by (rule run_reachable)
  then show ?thesis
    unfolding haunted_run .
qed

lemma haunted_not_consistent: "\<not> consistent haunted"
  by (auto simp: consistent_def haunted_def Map_get_def)

end
